theory Spec2Isabelle
  imports Main
begin

section \<open>Liveness tokens\<close>

text \<open>
  The header \<^verbatim>\<open>delegate.hpp\<close> keeps one \<^verbatim>\<open>std::shared_ptr<bool>\<close> per observer and
  hands \<^verbatim>\<open>std::weak_ptr<bool>\<close> copies of it to the registry. The shared state of such
  a pointer family is its control block: the number of owning pointers and the managed
  bool. The store below is the sequence of all control blocks made so far; an address is
  an index into it, so an allocation always yields an address no earlier pointer has.
\<close>

type_synonym addr = nat

record token =
  use_count :: nat
  flag :: bool

type_synonym store = "token list"

text \<open>\<^verbatim>\<open>std::make_shared<bool>(b)\<close>: a new control block with one owner.\<close>

definition make_shared :: "bool \<Rightarrow> store \<Rightarrow> addr \<times> store" where
  "make_shared b st = (length st, st @ [\<lparr>use_count = 1, flag = b\<rparr>])"

text \<open>
  The destructor of a \<^verbatim>\<open>shared_ptr\<close>: one owner less. A \<^verbatim>\<open>shared_ptr\<close> that exists
  owns its block, so the count is positive whenever a well-formed program gets here; on
  any other address the store is left as it is.
\<close>

definition release :: "addr \<Rightarrow> store \<Rightarrow> store" where
  "release a st =
     (if a < length st \<and> 0 < use_count (st ! a)
      then st[a := (st ! a)\<lparr>use_count := use_count (st ! a) - 1\<rparr>]
      else st)"

text \<open>
  The copy constructor of a \<^verbatim>\<open>shared_ptr\<close>: one owner more of the block the source
  owns.
\<close>

definition acquire :: "addr \<Rightarrow> store \<Rightarrow> store" where
  "acquire a st =
     (if a < length st
      then st[a := (st ! a)\<lparr>use_count := use_count (st ! a) + 1\<rparr>]
      else st)"

text \<open>
  \<^verbatim>\<open>std::weak_ptr::expired()\<close> is \<^verbatim>\<open>use_count() == 0\<close>. A weak pointer that refers to
  no control block at all (an empty one) is expired as well.
\<close>

definition expired :: "store \<Rightarrow> addr \<Rightarrow> bool" where
  "expired st a = (if a < length st then use_count (st ! a) = 0 else True)"

section \<open>The observer class\<close>

text \<open>
  \<^verbatim>\<open>class observer { observer() : valid(std::make_shared<bool>(true)) {}
     virtual ~observer() = default; std::shared_ptr<bool> valid; };\<close>
  The only member is the owning pointer, so the content of an observer is the address it
  owns.
\<close>

record observer =
  valid :: addr

text \<open>
  Observers are objects: they are made, copied, assigned and destroyed, and \<open>add\<close> is
  handed them by pointer or by value. The memory has, next to the tokens, every observer
  object made so far at the index that is its identity: its content while it lives,
  \<open>None\<close> once it is destroyed. An owner of a token that is no observer (a copy of the
  public member \<^verbatim>\<open>valid\<close>) is for the token what a copied observer is. Reading an
  object that does not live (any more) is undefined behaviour: the operations below have
  no result then.
\<close>

type_synonym obj = nat

record memory =
  tokens :: store
  objects :: "observer option list"

definition object_at :: "'z memory_scheme \<Rightarrow> obj \<Rightarrow> observer option" where
  "object_at m p = (if p < length (objects m) then objects m ! p else None)"

text \<open>\<^verbatim>\<open>observer() : valid(std::make_shared<bool>(true)) {}\<close>\<close>

definition observer_ctor :: "'z memory_scheme \<Rightarrow> obj \<times> 'z memory_scheme" where
  "observer_ctor m =
     (let (a, st) = make_shared True (tokens m)
      in (length (objects m), m\<lparr>tokens := st, objects := objects m @ [Some \<lparr>valid = a\<rparr>]\<rparr>))"

text \<open>
  The class declares no copy operation, so it has the implicit ones: the copy
  constructor copies \<^verbatim>\<open>valid\<close>, so that the new observer co-owns the token of its source
  and no token is made.
\<close>

definition observer_copy_ctor ::
  "obj \<Rightarrow> 'z memory_scheme \<Rightarrow> (obj \<times> 'z memory_scheme) option" where
  "observer_copy_ctor p m =
     (case object_at m p of
        None \<Rightarrow> None
      | Some src \<Rightarrow>
          Some (length (objects m),
                m\<lparr>tokens := acquire (valid src) (tokens m),
                  objects := objects m @ [Some \<lparr>valid = valid src\<rparr>]\<rparr>))"

text \<open>
  The implicit copy assignment \<^verbatim>\<open>*p = *q\<close> assigns \<^verbatim>\<open>valid\<close>: the target comes to co-own
  the token of the source and gives up the one it had.
\<close>

definition observer_copy_assign ::
  "obj \<Rightarrow> obj \<Rightarrow> 'z memory_scheme \<Rightarrow> 'z memory_scheme option" where
  "observer_copy_assign p q m =
     (case object_at m p of
        None \<Rightarrow> None
      | Some dst \<Rightarrow>
          (case object_at m q of
             None \<Rightarrow> None
           | Some src \<Rightarrow>
               Some (m\<lparr>tokens := release (valid dst) (acquire (valid src) (tokens m)),
                       objects := (objects m)[p := Some \<lparr>valid = valid src\<rparr>]\<rparr>)))"

text \<open>
  \<^verbatim>\<open>virtual ~observer() = default;\<close> destroys the member \<^verbatim>\<open>valid\<close>, and the object is
  gone.
\<close>

definition observer_dtor :: "obj \<Rightarrow> 'z memory_scheme \<Rightarrow> 'z memory_scheme option" where
  "observer_dtor p m =
     (case object_at m p of
        None \<Rightarrow> None
      | Some ob \<Rightarrow>
          Some (m\<lparr>tokens := release (valid ob) (tokens m),
                  objects := (objects m)[p := None]\<rparr>))"

section \<open>Callables and registration entries\<close>

text \<open>
  \<^verbatim>\<open>FunctionType = std::function<TReturnType(TArgs...)>\<close>. A callable has the
  \<^verbatim>\<open>std::type_info\<close> of its target (identified here by the type's name) and the
  target itself, which is run on the argument tuple \<open>'a\<close> and may act on the rest of the
  program state \<open>'w\<close> (captured references, globals, output). Two closures of one lambda
  expression have the same \<open>target_type\<close> and may differ in \<open>target\<close>. Targets return
  normally, and they neither touch the registry that runs them nor create or destroy
  observers.
\<close>

type_synonym type_info = string

record ('a, 'r, 'w) FunctionType =
  target_type :: type_info
  target :: "'a \<Rightarrow> 'w \<Rightarrow> 'r \<times> 'w"

type_synonym ObserversType = "addr list"

text \<open>
  \<^verbatim>\<open>struct FunctionPair { FunctionType function; ObserversType observers; }\<close>
  (the member \<^verbatim>\<open>function\<close> is the field \<open>function_f\<close>, the delegate's vector
  \<^verbatim>\<open>functions\<close> is the field \<open>functions_v\<close>).
\<close>

record ('a, 'r, 'w) FunctionPair =
  function_f :: "('a, 'r, 'w) FunctionType"
  observers :: ObserversType

text \<open>
  \<^verbatim>\<open>for (const auto &observer : observers) if (observer.expired()) return true;
     return false;\<close>
\<close>

fun any_expired :: "store \<Rightarrow> ObserversType \<Rightarrow> bool" where
  "any_expired st [] = False"
| "any_expired st (a # as) = (if expired st a then True else any_expired st as)"

definition is_expired :: "store \<Rightarrow> ('a, 'r, 'w) FunctionPair \<Rightarrow> bool" where
  "is_expired st e = any_expired st (observers e)"

section \<open>The delegate\<close>

text \<open>
  \<^verbatim>\<open>std::mutex mutex; std::vector<FunctionPair> functions;\<close>
  The mutex is the flag whether it is held. Every operation starts with a
  \<^verbatim>\<open>std::lock_guard\<close>: on a held mutex it never gets further (the result \<open>None\<close>),
  otherwise it runs holding the mutex and gives it back on return. The operations are
  typed on the record scheme, so that they apply to a derived class as they are.
\<close>

record ('a, 'r, 'w) delegate =
  functions_v :: "('a, 'r, 'w) FunctionPair list"
  mutex :: bool

definition delegate_ctor :: "('a, 'r, 'w) delegate" where
  "delegate_ctor = \<lparr>functions_v = [], mutex = False\<rparr>"

text \<open>
  \<^verbatim>\<open>for (const auto &arg : {args...}) observers.emplace_back(__as_ptr(arg)->valid);\<close>
  Each weak pointer is made from the observer's own \<open>valid\<close>.
\<close>

fun collect_observers :: "ObserversType \<Rightarrow> observer list \<Rightarrow> ObserversType" where
  "collect_observers acc [] = acc"
| "collect_observers acc (ob # obs) = collect_observers (acc @ [valid ob]) obs"

definition add ::
  "('a, 'r, 'w) FunctionType \<Rightarrow> observer list \<Rightarrow> ('a, 'r, 'w, 'z) delegate_scheme
     \<Rightarrow> ('a, 'r, 'w, 'z) delegate_scheme option" where
  "add f args d =
     (if mutex d then None
      else
        let d1 = d\<lparr>mutex := True\<rparr>;
            obs = collect_observers [] args;
            d2 = d1\<lparr>functions_v := functions_v d1 @ [\<lparr>function_f = f, observers = obs\<rparr>]\<rparr>
        in Some (d2\<lparr>mutex := False\<rparr>))"

text \<open>
  \<^verbatim>\<open>static constexpr size_t hash(const FunctionType &function)
     { return function.target_type().hash_code(); }\<close>
  \<^verbatim>\<open>std::type_info::hash_code\<close> belongs to the standard library: it is a parameter.
\<close>

definition hash :: "(type_info \<Rightarrow> nat) \<Rightarrow> ('a, 'r, 'w) FunctionType \<Rightarrow> nat" where
  "hash hash_code f = hash_code (target_type f)"

text \<open>
  \<^verbatim>\<open>functions.erase(std::remove_if(functions.begin(), functions.end(), pred),
     functions.end())\<close>: the elements that do not satisfy \<open>pred\<close>, in their order.
\<close>

fun erase_remove_if :: "('x \<Rightarrow> bool) \<Rightarrow> 'x list \<Rightarrow> 'x list" where
  "erase_remove_if pred [] = []"
| "erase_remove_if pred (x # xs) =
     (if pred x then erase_remove_if pred xs else x # erase_remove_if pred xs)"

definition delegate_remove ::
  "(type_info \<Rightarrow> nat) \<Rightarrow> ('a, 'r, 'w) FunctionType \<Rightarrow> ('a, 'r, 'w, 'z) delegate_scheme
     \<Rightarrow> ('a, 'r, 'w, 'z) delegate_scheme option" where
  "delegate_remove hash_code f d =
     (if mutex d then None
      else
        let d1 = d\<lparr>mutex := True\<rparr>;
            d2 = d1\<lparr>functions_v :=
                    erase_remove_if (\<lambda>e. hash hash_code (function_f e) = hash hash_code f)
                      (functions_v d1)\<rparr>
        in Some (d2\<lparr>mutex := False\<rparr>))"

definition clear :: "('a, 'r, 'w, 'z) delegate_scheme \<Rightarrow> ('a, 'r, 'w, 'z) delegate_scheme option" where
  "clear d =
     (if mutex d then None
      else
        let d1 = d\<lparr>mutex := True\<rparr>;
            d2 = d1\<lparr>functions_v := []\<rparr>
        in Some (d2\<lparr>mutex := False\<rparr>))"

section \<open>The invokers\<close>

text \<open>
  The value-returning \<^verbatim>\<open>invoker::invoke\<close> (lines 51 to 69) has no embedding: its call
  is written \<^verbatim>\<open>(*it->function)(params...)\<close>, which applies unary \<^verbatim>\<open>*\<close> to a
  \<^verbatim>\<open>std::function\<close>. That class has no such operator, so the function template cannot be
  instantiated and a delegate with a return value cannot be invoked at all. The invoker
  for \<^verbatim>\<open>void\<close> has the call as \<^verbatim>\<open>it->function(params...)\<close> and is embedded below.

  The loop of \<^verbatim>\<open>invoker<void, TArgs...>::Invoke\<close>. The vector is split at the iterator:
  \<open>kept\<close> is \<^verbatim>\<open>[begin, it)\<close>, the second list is \<^verbatim>\<open>[it, end)\<close>. Erasing at \<open>it\<close> drops
  the head of the second list; \<^verbatim>\<open>++it\<close> moves it to the end of \<open>kept\<close>. The result of a
  call is dropped. Before the loop the function returns if the vector is empty.
\<close>

fun Invoke_loop ::
  "store \<Rightarrow> 'a \<Rightarrow> ('a, 'r, 'w) FunctionPair list \<Rightarrow> ('a, 'r, 'w) FunctionPair list
     \<Rightarrow> 'w \<Rightarrow> ('a, 'r, 'w) FunctionPair list \<times> 'w" where
  "Invoke_loop st params kept [] w = (kept, w)"
| "Invoke_loop st params kept (e # rest) w =
     (if is_expired st e then Invoke_loop st params kept rest w
      else
        let (r, w') = target (function_f e) params w
        in Invoke_loop st params (kept @ [e]) rest w')"

definition Invoke ::
  "('a, 'r, 'w, 'z) delegate_scheme \<Rightarrow> store \<Rightarrow> 'a \<Rightarrow> 'w
     \<Rightarrow> (('a, 'r, 'w, 'z) delegate_scheme \<times> 'w) option" where
  "Invoke d st params w =
     (if mutex d then None
      else
        let d1 = d\<lparr>mutex := True\<rparr>
        in if functions_v d1 = [] then Some (d1\<lparr>mutex := False\<rparr>, w)
           else
             let (fs, w') = Invoke_loop st params [] (functions_v d1) w;
                 d2 = d1\<lparr>functions_v := fs\<rparr>
             in Some (d2\<lparr>mutex := False\<rparr>, w'))"

section \<open>The value-change wrapper\<close>

text \<open>
  \<^verbatim>\<open>template<typename T> class delegate_value : public delegate<void(T)>
     { ... protected: T value; };\<close>
  The derived class is the record extension; its member \<^verbatim>\<open>value\<close> is the field
  \<open>value_m\<close>.
\<close>

record ('a, 'w) delegate_value = "('a, unit, 'w) delegate" +
  value_m :: 'a

definition delegate_value_ctor :: "'a \<Rightarrow> ('a, 'w) delegate_value" where
  "delegate_value_ctor v = \<lparr>functions_v = [], mutex = False, value_m = v\<rparr>"

text \<open>
  \<^verbatim>\<open>delegate_value &operator=(T value) { value = value; invoke(value); return *this; }\<close>
  Inside the body the name \<^verbatim>\<open>value\<close> is the parameter, which hides the member: the
  first statement assigns the parameter to itself, and no statement writes the member.
  \<^verbatim>\<open>invoke\<close> is the inherited one, which forwards to the invoker of the return type
  \<^verbatim>\<open>void\<close>, that is to \<open>Invoke\<close>. The operator returns \<^verbatim>\<open>*this\<close>: the object as the call
  left it.
\<close>

definition assign ::
  "'a \<Rightarrow> ('a, 'w) delegate_value \<Rightarrow> store \<Rightarrow> 'w \<Rightarrow> (('a, 'w) delegate_value \<times> 'w) option" where
  "assign v this st w =
     (let param = v;
          param = param
      in Invoke this st param w)"

text \<open>\<^verbatim>\<open>const T &get() const { return value; }\<close>\<close>

definition get :: "('a, 'w) delegate_value \<Rightarrow> 'a" where
  "get this = value_m this"

section \<open>Programs over one delegate\<close>

text \<open>
  A program that uses the header is a sequence of operations on observers and on a
  delegate. Its state has the memory, the delegate and the rest of the program state, on
  which the callables act.
\<close>

record ('a, 'r, 'w) program_state = memory +
  registry :: "('a, 'r, 'w) delegate"
  world :: 'w

text \<open>
  An operation may fail to give a next state: it blocks on the mutex, or it reads an
  observer that does not live, which is undefined.
\<close>

datatype failure = Blocked | Undefined_behaviour

text \<open>
  \<^verbatim>\<open>add(FunctionType &&function, KArgs... args)\<close> takes each argument by value. An
  argument is a pointer to an observer (\<^verbatim>\<open>del.add(&test::called, this)\<close>; a smart
  pointer to the observer is the same for the tokens), or it is an observer
  (\<^verbatim>\<open>del.add(&test::called, our_observer)\<close>), which is then copied.
\<close>

datatype passing = By_pointer | By_value

text \<open>
  The operations: the constructor, the implicit copy constructor and copy assignment and
  the destructor of \<^verbatim>\<open>observer\<close>, and \<^verbatim>\<open>add\<close>, \<^verbatim>\<open>remove\<close>, \<^verbatim>\<open>clear\<close> and the
  invoker for \<^verbatim>\<open>void\<close> on the delegate. Observers are named by their identity. An
  observer that a closure captured by value is a copy like any other, and it is destroyed,
  by a step of its own, when the closure is. A program that reseats the public member
  \<^verbatim>\<open>valid\<close> by hand (other than by these operations) is not among these programs.
\<close>

datatype ('a, 'r, 'w) operation =
    NewObserver
  | CopyObserver obj
  | AssignObserver obj obj
  | DeleteObserver obj
  | Add "('a, 'r, 'w) FunctionType" passing "obj list"
  | Remove "('a, 'r, 'w) FunctionType"
  | Clear
  | InvokeVoid 'a

text \<open>\<^verbatim>\<open>__as_ptr(arg)->valid\<close> for each argument: the observers behind the pointers.\<close>

fun read_all :: "'z memory_scheme \<Rightarrow> obj list \<Rightarrow> observer list option" where
  "read_all m [] = Some []"
| "read_all m (p # ps) =
     (case object_at m p of
        None \<Rightarrow> None
      | Some ob \<Rightarrow>
          (case read_all m ps of
             None \<Rightarrow> None
           | Some obs \<Rightarrow> Some (ob # obs)))"

text \<open>Copying each observer of a list, and destroying each.\<close>

fun copy_all :: "obj list \<Rightarrow> 'z memory_scheme \<Rightarrow> (obj list \<times> 'z memory_scheme) option" where
  "copy_all [] m = Some ([], m)"
| "copy_all (p # ps) m =
     (case observer_copy_ctor p m of
        None \<Rightarrow> None
      | Some (q, m1) \<Rightarrow>
          (case copy_all ps m1 of
             None \<Rightarrow> None
           | Some (qs, m2) \<Rightarrow> Some (q # qs, m2)))"

fun destroy_all :: "obj list \<Rightarrow> 'z memory_scheme \<Rightarrow> 'z memory_scheme option" where
  "destroy_all [] m = Some m"
| "destroy_all (p # ps) m =
     (case observer_dtor p m of
        None \<Rightarrow> None
      | Some m1 \<Rightarrow> destroy_all ps m1)"

text \<open>\<open>add\<close> on pointers: the observers are read where they are.\<close>

definition add_by_pointer ::
  "('a, 'r, 'w) FunctionType \<Rightarrow> obj list \<Rightarrow> ('a, 'r, 'w) program_state
     \<Rightarrow> failure + ('a, 'r, 'w) program_state" where
  "add_by_pointer f ps s =
     (case read_all s ps of
        None \<Rightarrow> Inl Undefined_behaviour
      | Some obs \<Rightarrow>
          (case add f obs (registry s) of
             None \<Rightarrow> Inl Blocked
           | Some d \<Rightarrow> Inr (s\<lparr>registry := d\<rparr>)))"

text \<open>
  \<open>add\<close> on observers passed by value. The parameters \<^verbatim>\<open>args\<close> are copies of the
  caller's observers, and \<^verbatim>\<open>{args...}\<close> in the loop header is an initializer list of
  copies of the parameters; the loop reads the elements of that list. The elements are
  gone after the loop and the parameters at the return; \<open>add\<close>, which reads and then
  appends, runs while they live.
\<close>

definition add_by_value ::
  "('a, 'r, 'w) FunctionType \<Rightarrow> obj list \<Rightarrow> ('a, 'r, 'w) program_state
     \<Rightarrow> failure + ('a, 'r, 'w) program_state" where
  "add_by_value f ps s =
     (case copy_all ps s of
        None \<Rightarrow> Inl Undefined_behaviour
      | Some (params, s1) \<Rightarrow>
          (case copy_all params s1 of
             None \<Rightarrow> Inl Undefined_behaviour
           | Some (elems, s2) \<Rightarrow>
               (case add_by_pointer f elems s2 of
                  Inl e \<Rightarrow> Inl e
                | Inr s3 \<Rightarrow>
                    (case destroy_all (rev elems) s3 of
                       None \<Rightarrow> Inl Undefined_behaviour
                     | Some s4 \<Rightarrow>
                         (case destroy_all (rev params) s4 of
                            None \<Rightarrow> Inl Undefined_behaviour
                          | Some s5 \<Rightarrow> Inr s5)))))"

fun step ::
  "(type_info \<Rightarrow> nat) \<Rightarrow> ('a, 'r, 'w) operation \<Rightarrow> ('a, 'r, 'w) program_state
     \<Rightarrow> failure + ('a, 'r, 'w) program_state" where
  "step hc NewObserver s = Inr (snd (observer_ctor s))"
| "step hc (CopyObserver p) s =
     (case observer_copy_ctor p s of
        None \<Rightarrow> Inl Undefined_behaviour
      | Some (q, s') \<Rightarrow> Inr s')"
| "step hc (AssignObserver p q) s =
     (case observer_copy_assign p q s of
        None \<Rightarrow> Inl Undefined_behaviour
      | Some s' \<Rightarrow> Inr s')"
| "step hc (DeleteObserver p) s =
     (case observer_dtor p s of
        None \<Rightarrow> Inl Undefined_behaviour
      | Some s' \<Rightarrow> Inr s')"
| "step hc (Add f By_pointer ps) s = add_by_pointer f ps s"
| "step hc (Add f By_value ps) s = add_by_value f ps s"
| "step hc (Remove f) s =
     (case delegate_remove hc f (registry s) of
        None \<Rightarrow> Inl Blocked
      | Some d \<Rightarrow> Inr (s\<lparr>registry := d\<rparr>))"
| "step hc Clear s =
     (case clear (registry s) of
        None \<Rightarrow> Inl Blocked
      | Some d \<Rightarrow> Inr (s\<lparr>registry := d\<rparr>))"
| "step hc (InvokeVoid params) s =
     (case Invoke (registry s) (tokens s) params (world s) of
        None \<Rightarrow> Inl Blocked
      | Some (d, w) \<Rightarrow> Inr (s\<lparr>registry := d, world := w\<rparr>))"

fun run ::
  "(type_info \<Rightarrow> nat) \<Rightarrow> ('a, 'r, 'w) operation list \<Rightarrow> ('a, 'r, 'w) program_state
     \<Rightarrow> failure + ('a, 'r, 'w) program_state" where
  "run hc [] s = Inr s"
| "run hc (x # xs) s =
     (case step hc x s of
        Inl e \<Rightarrow> Inl e
      | Inr s' \<Rightarrow> run hc xs s')"

section \<open>Notions of the specification\<close>

text \<open>
  Calling every entry of a list once, in the order of the list, each on the state the
  previous call left: the results in that order and the final state.
\<close>

fun call_all ::
  "('a, 'r, 'w) FunctionPair list \<Rightarrow> 'a \<Rightarrow> 'w \<Rightarrow> 'r list \<times> 'w" where
  "call_all [] params w = ([], w)"
| "call_all (e # es) params w =
     (let (r, w1) = target (function_f e) params w;
          (rs, w2) = call_all es params w1
      in (r # rs, w2))"

text \<open>The entries of a list that are not expired, in the order of the list.\<close>

definition live :: "store \<Rightarrow> ('a, 'r, 'w) FunctionPair list \<Rightarrow> ('a, 'r, 'w) FunctionPair list" where
  "live st es = filter (\<lambda>e. \<not> is_expired st e) es"

text \<open>
  A weak pointer resolves to a live token when its control block exists and still has an
  owner (\<^verbatim>\<open>lock()\<close> would give a non-empty pointer).
\<close>

definition resolvable :: "store \<Rightarrow> addr \<Rightarrow> bool" where
  "resolvable st a = (a < length st \<and> 0 < use_count (st ! a))"

text \<open>A program starts with no token, no observer, an empty delegate and some program state.\<close>

definition initial :: "'w \<Rightarrow> ('a, 'r, 'w) program_state" where
  "initial w = \<lparr>tokens = [], objects = [], registry = delegate_ctor, world = w\<rparr>"

text \<open>
  The number of living observers that hold a token, and the memories in which the count
  of every token is that number and every living observer holds a token that was made.
\<close>

definition owners :: "observer option list \<Rightarrow> addr \<Rightarrow> nat" where
  "owners objs a = count_list objs (Some \<lparr>valid = a\<rparr>)"

definition counted :: "'z memory_scheme \<Rightarrow> bool" where
  "counted m =
     ((\<forall>a. a < length (tokens m) \<longrightarrow> use_count (tokens m ! a) = owners (objects m) a)
      \<and> (\<forall>ob. Some ob \<in> set (objects m) \<longrightarrow> valid ob < length (tokens m)))"

text \<open>
  A later memory: the counts are right, no token is lost, and what was expired is expired.
\<close>

definition follows :: "'z memory_scheme \<Rightarrow> 'z memory_scheme \<Rightarrow> bool" where
  "follows m m' =
     (counted m' \<and> length (tokens m) \<le> length (tokens m')
      \<and> (\<forall>a. a < length (tokens m) \<and> expired (tokens m) a \<longrightarrow> expired (tokens m') a))"

section \<open>Callables of the examples\<close>

text \<open>A closure that captures \<open>k\<close> and a log: it appends \<open>k * x\<close> to the log.\<close>

definition scaled_logger :: "int \<Rightarrow> (int, unit, int list) FunctionType" where
  "scaled_logger k = \<lparr>target_type = ''scaled_logger'', target = (\<lambda>x w. ((), w @ [k * x]))\<rparr>"

definition plain_logger :: "(int, unit, int list) FunctionType" where
  "plain_logger = \<lparr>target_type = ''plain_logger'', target = (\<lambda>x w. ((), w @ [x]))\<rparr>"

text \<open>
  The standard asks of \<^verbatim>\<open>hash_code\<close> that equal types have equal values, and no more.
  Under this one all types collide.
\<close>

definition colliding_hash_code :: "type_info \<Rightarrow> nat" where
  "colliding_hash_code name = 0"

section \<open>The operations in closed form\<close>

lemma any_expired_iff: "any_expired st as = (\<exists>a\<in>set as. expired st a)"
  by (induction as) auto

lemma collect_observers_eq: "collect_observers acc args = acc @ map valid args"
  by (induction args arbitrary: acc) auto

lemma erase_remove_if_eq: "erase_remove_if pred xs = filter (\<lambda>x. \<not> pred x) xs"
  by (induction xs) auto

lemma Invoke_loop_eq:
  "Invoke_loop st params kept es w =
     (kept @ live st es, snd (call_all (live st es) params w))"
  by (induction es arbitrary: kept w) (auto simp: live_def split: prod.splits)

lemma Invoke_eq:
  "Invoke d st params w =
     (if mutex d then None
      else Some (d\<lparr>functions_v := live st (functions_v d)\<rparr>,
                 snd (call_all (live st (functions_v d)) params w)))"
  by (cases d) (auto simp add: Invoke_def Invoke_loop_eq live_def Let_def split: prod.splits)

lemma add_eq:
  "add f args d =
     (if mutex d then None
      else Some (d\<lparr>functions_v :=
                     functions_v d @ [\<lparr>function_f = f, observers = map valid args\<rparr>]\<rparr>))"
  by (cases d) (simp add: add_def collect_observers_eq)

lemma delegate_remove_eq:
  "delegate_remove hc f d =
     (if mutex d then None
      else Some (d\<lparr>functions_v :=
                     filter (\<lambda>e. hc (target_type (function_f e)) \<noteq> hc (target_type f))
                       (functions_v d)\<rparr>))"
  by (cases d) (simp add: delegate_remove_def erase_remove_if_eq hash_def)

lemma clear_eq:
  "clear d = (if mutex d then None else Some (d\<lparr>functions_v := []\<rparr>))"
  by (cases d) (simp add: clear_def)

section \<open>Observers and tokens in a program\<close>

lemma observer_surj [simp]: "\<lparr>valid = valid ob\<rparr> = (ob :: observer)"
  by (cases ob) simp

lemma observer_eq: "(ob = \<lparr>valid = a\<rparr>) = (valid ob = a)"
  by (cases ob) auto

lemma observer_Some_eq: "(Some ob = Some \<lparr>valid = a\<rparr>) = (valid ob = a)"
  by (cases ob) auto

lemma observer_Some_eq': "(Some \<lparr>valid = a\<rparr> = Some ob) = (valid ob = a)"
  by (cases ob) auto

lemma count_list_update:
  "p < length xs \<Longrightarrow>
     count_list (xs[p := y]) x + (if xs ! p = x then 1 else 0)
       = count_list xs x + (if y = x then 1 else 0)"
proof (induction xs arbitrary: p)
  case Nil
  then show ?case by simp
next
  case (Cons z zs)
  show ?case
  proof (cases p)
    case 0
    then show ?thesis by simp
  next
    case (Suc k)
    with Cons.prems have "k < length zs" by simp
    from Cons.IH [OF this] Suc show ?thesis by (auto split: if_splits)
  qed
qed

lemma object_at_Some:
  "object_at m p = Some ob \<Longrightarrow> p < length (objects m) \<and> objects m ! p = Some ob"
  by (auto simp: object_at_def split: if_splits)

lemma counted_live:
  assumes "counted m" "object_at m p = Some ob"
  shows "valid ob < length (tokens m) \<and> 0 < use_count (tokens m ! valid ob)"
proof -
  from object_at_Some [OF assms(2)] have mem: "Some ob \<in> set (objects m)"
    by (metis nth_mem)
  with assms(1) have len: "valid ob < length (tokens m)" by (simp add: counted_def)
  from mem have "count_list (objects m) (Some \<lparr>valid = valid ob\<rparr>) \<noteq> 0"
    by (simp add: count_list_0_iff)
  with assms(1) len show ?thesis by (simp add: counted_def owners_def)
qed

lemma expired_iff_no_owner:
  "counted m \<Longrightarrow> a < length (tokens m) \<Longrightarrow>
     expired (tokens m) a = (Some \<lparr>valid = a\<rparr> \<notin> set (objects m))"
  by (simp add: counted_def owners_def expired_def count_list_0_iff)

lemma follows_refl: "counted m \<Longrightarrow> follows m m"
  by (simp add: follows_def)

lemma follows_trans: "follows m m1 \<Longrightarrow> follows m1 m2 \<Longrightarrow> follows m m2"
  by (auto simp: follows_def)

lemma fresh_no_owner:
  "counted m \<Longrightarrow> Some \<lparr>valid = length (tokens m)\<rparr> \<notin> set (objects m)"
  by (auto simp: counted_def)

lemma follows_ctor: "counted m \<Longrightarrow> follows m (snd (observer_ctor m))"
proof -
  assume c: "counted m"
  from fresh_no_owner [OF c]
  have 0: "count_list (objects m) (Some \<lparr>valid = length (tokens m)\<rparr>) = 0"
    by (simp add: count_list_0_iff)
  from c 0 show ?thesis
    by (auto simp: follows_def counted_def observer_ctor_def make_shared_def owners_def
        nth_append expired_def less_Suc_eq)
qed

lemma length_release [simp]: "length (release a st) = length st"
  by (simp add: release_def)

lemma length_acquire [simp]: "length (acquire a st) = length st"
  by (simp add: acquire_def)

lemma follows_copy_ctor:
  assumes c: "counted m" and r: "observer_copy_ctor p m = Some (q, m')"
  shows "follows m m'"
proof -
  from r obtain src where src: "object_at m p = Some src"
    and m': "m' = m\<lparr>tokens := acquire (valid src) (tokens m),
                    objects := objects m @ [Some \<lparr>valid = valid src\<rparr>]\<rparr>"
    by (auto simp: observer_copy_ctor_def split: option.splits)
  from counted_live [OF c src]
  have len: "valid src < length (tokens m)" and pos: "0 < use_count (tokens m ! valid src)"
    by simp_all
  have cnt: "counted m'"
    using c len unfolding m' counted_def owners_def acquire_def
    by (auto simp: nth_list_update observer_Some_eq observer_Some_eq')
  have exp: "expired (tokens m') a" if "a < length (tokens m)" "expired (tokens m) a" for a
    using that len pos unfolding m' acquire_def expired_def
    by (auto simp: nth_list_update)
  from cnt exp show ?thesis
    by (simp add: follows_def m')
qed

lemma release_live:
  "a < length st \<Longrightarrow> 0 < use_count (st ! a) \<Longrightarrow>
     release a st = st[a := (st ! a)\<lparr>use_count := use_count (st ! a) - 1\<rparr>]"
  by (simp add: release_def)

lemma follows_dtor:
  assumes c: "counted m" and r: "observer_dtor p m = Some m'"
  shows "follows m m'"
proof -
  from r obtain ob where ob: "object_at m p = Some ob"
    and m': "m' = m\<lparr>tokens := release (valid ob) (tokens m), objects := (objects m)[p := None]\<rparr>"
    by (auto simp: observer_dtor_def split: option.splits)
  from counted_live [OF c ob]
  have len: "valid ob < length (tokens m)" and pos: "0 < use_count (tokens m ! valid ob)"
    by simp_all
  from object_at_Some [OF ob] have p: "p < length (objects m)" "objects m ! p = Some ob"
    by simp_all
  have upd: "count_list ((objects m)[p := None]) (Some \<lparr>valid = a\<rparr>)
        + (if valid ob = a then 1 else 0) = count_list (objects m) (Some \<lparr>valid = a\<rparr>)" for a
    using count_list_update [OF p(1), of None "Some \<lparr>valid = a\<rparr>"] p(2)
    by (simp add: observer_eq)
  have cnt: "counted m'"
    unfolding counted_def
  proof (intro conjI allI impI)
    fix a assume "a < length (tokens m')"
    then have a: "a < length (tokens m)" by (simp add: m')
    with c have u: "use_count (tokens m ! a) = count_list (objects m) (Some \<lparr>valid = a\<rparr>)"
      by (simp add: counted_def owners_def)
    show "use_count (tokens m' ! a) = owners (objects m') a"
      using upd [of a] u a len pos
      by (auto simp: m' owners_def release_live nth_list_update)
  next
    fix x assume "Some x \<in> set (objects m')"
    then have "Some x \<in> set (objects m)"
      using set_update_subset_insert [of "objects m" p None] by (auto simp: m')
    with c show "valid x < length (tokens m')"
      by (simp add: counted_def m')
  qed
  have exp: "expired (tokens m') a" if "a < length (tokens m)" "expired (tokens m) a" for a
    using that unfolding m' release_def expired_def
    by (auto simp: nth_list_update)
  from cnt exp show ?thesis
    by (simp add: follows_def m')
qed

lemma follows_copy_assign:
  assumes c: "counted m" and r: "observer_copy_assign p q m = Some m'"
  shows "follows m m'"
proof -
  from r obtain dst src where dst: "object_at m p = Some dst" and src: "object_at m q = Some src"
    and m': "m' = m\<lparr>tokens := release (valid dst) (acquire (valid src) (tokens m)),
                    objects := (objects m)[p := Some \<lparr>valid = valid src\<rparr>]\<rparr>"
    by (auto simp: observer_copy_assign_def split: option.splits)
  from counted_live [OF c dst]
  have ld: "valid dst < length (tokens m)" and pd: "0 < use_count (tokens m ! valid dst)"
    by simp_all
  from counted_live [OF c src]
  have ls: "valid src < length (tokens m)" and ps: "0 < use_count (tokens m ! valid src)"
    by simp_all
  from object_at_Some [OF dst] have p: "p < length (objects m)" "objects m ! p = Some dst"
    by simp_all
  let ?st1 = "acquire (valid src) (tokens m)"
  have u1: "use_count (?st1 ! a) = use_count (tokens m ! a) + (if a = valid src then 1 else 0)"
    if "a < length (tokens m)" for a
    using that by (simp add: acquire_def nth_list_update)
  have pos1: "0 < use_count (?st1 ! valid dst)" using u1 [OF ld] pd by simp
  have rel: "release (valid dst) ?st1
      = ?st1[valid dst := (?st1 ! valid dst)\<lparr>use_count := use_count (?st1 ! valid dst) - 1\<rparr>]"
    using ld pos1 by (intro release_live) simp_all
  have u2: "use_count (tokens m' ! a) + (if a = valid dst then 1 else 0)
      = use_count (tokens m ! a) + (if a = valid src then 1 else 0)"
    if "a < length (tokens m)" for a
    using that u1 [OF that] pos1 by (auto simp: m' rel nth_list_update)
  have upd: "count_list (objects m') (Some \<lparr>valid = a\<rparr>) + (if valid dst = a then 1 else 0)
      = count_list (objects m) (Some \<lparr>valid = a\<rparr>) + (if valid src = a then 1 else 0)" for a
    using count_list_update [OF p(1), of "Some src" "Some \<lparr>valid = a\<rparr>"] p(2)
    by (simp add: observer_eq m')
  have cnt: "counted m'"
    unfolding counted_def
  proof (intro conjI allI impI)
    fix a assume "a < length (tokens m')"
    then have a: "a < length (tokens m)" by (simp add: m')
    with c have u: "use_count (tokens m ! a) = count_list (objects m) (Some \<lparr>valid = a\<rparr>)"
      by (simp add: counted_def owners_def)
    show "use_count (tokens m' ! a) = owners (objects m') a"
      using upd [of a] u2 [OF a] u by (auto simp: owners_def split: if_splits)
  next
    fix x assume "Some x \<in> set (objects m')"
    then have "Some x \<in> set (objects m) \<or> x = src"
      using set_update_subset_insert [of "objects m" p "Some src"] by (auto simp: m')
    with c ls show "valid x < length (tokens m')"
      by (auto simp: counted_def m')
  qed
  have exp: "expired (tokens m') a" if "a < length (tokens m)" "expired (tokens m) a" for a
    using that u2 [OF that(1)] pd ps by (auto simp: expired_def m' split: if_splits)
  from cnt exp show ?thesis
    by (simp add: follows_def m')
qed

lemma follows_copy_all:
  "counted m \<Longrightarrow> copy_all ps m = Some (qs, m') \<Longrightarrow> follows m m'"
proof (induction ps arbitrary: m qs)
  case Nil
  then show ?case by (simp add: follows_refl)
next
  case (Cons p ps)
  from Cons.prems(2) obtain q m1 qs' where 1: "observer_copy_ctor p m = Some (q, m1)"
    and 2: "copy_all ps m1 = Some (qs', m')"
    by (auto split: option.splits)
  from follows_copy_ctor [OF Cons.prems(1) 1] have f1: "follows m m1" .
  then have "counted m1" by (simp add: follows_def)
  from Cons.IH [OF this 2] f1 show ?case by (rule follows_trans [rotated])
qed

lemma follows_destroy_all:
  "counted m \<Longrightarrow> destroy_all ps m = Some m' \<Longrightarrow> follows m m'"
proof (induction ps arbitrary: m)
  case Nil
  then show ?case by (simp add: follows_refl)
next
  case (Cons p ps)
  from Cons.prems(2) obtain m1 where 1: "observer_dtor p m = Some m1"
    and 2: "destroy_all ps m1 = Some m'"
    by (auto split: option.splits)
  from follows_dtor [OF Cons.prems(1) 1] have f1: "follows m m1" .
  then have "counted m1" by (simp add: follows_def)
  from Cons.IH [OF this 2] f1 show ?case by (rule follows_trans [rotated])
qed

lemma more_copy_all:
  "copy_all ps m = Some (qs, m') \<Longrightarrow> memory.more m' = memory.more m"
  by (induction ps arbitrary: m qs)
     (auto simp: observer_copy_ctor_def split: option.splits)

lemma more_destroy_all:
  "destroy_all ps m = Some m' \<Longrightarrow> memory.more m' = memory.more m"
  by (induction ps arbitrary: m)
     (auto simp: observer_dtor_def split: option.splits)

lemma more_program_state:
  "memory.more s' = memory.more s \<Longrightarrow>
     registry s' = registry (s :: ('a, 'r, 'w) program_state) \<and> world s' = world s"
  by (cases s, cases s') simp

lemma follows_registry:
  "counted s \<Longrightarrow> follows s (s\<lparr>registry := d\<rparr>) \<and> follows s (s\<lparr>registry := d, world := w\<rparr>)"
  by (simp add: follows_def counted_def)

lemma add_by_pointer_Inr:
  "add_by_pointer f ps s = Inr s' \<Longrightarrow>
     \<exists>obs d. read_all s ps = Some obs \<and> add f obs (registry s) = Some d \<and> s' = s\<lparr>registry := d\<rparr>"
  by (auto simp: add_by_pointer_def split: option.splits)

lemma add_by_value_Inr:
  assumes "add_by_value f ps s = Inr s'"
  shows "\<exists>params s1 elems s2 s3 s4.
           copy_all ps s = Some (params, s1) \<and> copy_all params s1 = Some (elems, s2)
         \<and> add_by_pointer f elems s2 = Inr s3
         \<and> destroy_all (rev elems) s3 = Some s4 \<and> destroy_all (rev params) s4 = Some s'"
  using assms by (auto simp: add_by_value_def split: option.splits sum.splits)

lemma step_follows:
  assumes c: "counted s" and st: "step hc x s = Inr s'"
  shows "follows s s'"
proof (cases x)
  case NewObserver
  with st c show ?thesis by (auto intro: follows_ctor)
next
  case (CopyObserver p)
  with st c show ?thesis by (auto split: option.splits intro: follows_copy_ctor)
next
  case (AssignObserver p q)
  with st c show ?thesis by (auto split: option.splits intro: follows_copy_assign)
next
  case (DeleteObserver p)
  with st c show ?thesis by (auto split: option.splits intro: follows_dtor)
next
  case (Add f pass ps)
  show ?thesis
  proof (cases pass)
    case By_pointer
    with Add st have "add_by_pointer f ps s = Inr s'" by simp
    from add_by_pointer_Inr [OF this] c show ?thesis by (auto simp: follows_registry)
  next
    case By_value
    with Add st have "add_by_value f ps s = Inr s'" by simp
    from add_by_value_Inr [OF this] obtain params s1 elems s2 s3 s4 where
      1: "copy_all ps s = Some (params, s1)" and 2: "copy_all params s1 = Some (elems, s2)"
      and 3: "add_by_pointer f elems s2 = Inr s3"
      and 4: "destroy_all (rev elems) s3 = Some s4" and 5: "destroy_all (rev params) s4 = Some s'"
      by blast
    from follows_copy_all [OF c 1] have f1: "follows s s1" .
    then have c1: "counted s1" by (simp add: follows_def)
    from follows_copy_all [OF c1 2] have f2: "follows s1 s2" .
    then have c2: "counted s2" by (simp add: follows_def)
    from add_by_pointer_Inr [OF 3] c2 have f3: "follows s2 s3" by (auto simp: follows_registry)
    then have c3: "counted s3" by (simp add: follows_def)
    from follows_destroy_all [OF c3 4] have f4: "follows s3 s4" .
    then have c4: "counted s4" by (simp add: follows_def)
    from follows_destroy_all [OF c4 5] have f5: "follows s4 s'" .
    from f1 f2 f3 f4 f5 show ?thesis by (blast intro: follows_trans)
  qed
next
  case (Remove f)
  with st c show ?thesis by (auto split: option.splits simp: follows_registry)
next
  case Clear
  with st c show ?thesis by (auto split: option.splits simp: follows_registry)
next
  case (InvokeVoid params)
  with st c show ?thesis by (auto split: option.splits simp: follows_registry)
qed

lemma step_unlocked:
  assumes u: "\<not> mutex (registry s)" and st: "step hc x s = Inr s'"
  shows "\<not> mutex (registry s')"
proof (cases x)
  case NewObserver
  with st u show ?thesis by (auto simp: observer_ctor_def make_shared_def)
next
  case (CopyObserver p)
  with st u show ?thesis by (auto simp: observer_copy_ctor_def split: option.splits)
next
  case (AssignObserver p q)
  with st u show ?thesis by (auto simp: observer_copy_assign_def split: option.splits)
next
  case (DeleteObserver p)
  with st u show ?thesis by (auto simp: observer_dtor_def split: option.splits)
next
  case (Add f pass ps)
  show ?thesis
  proof (cases pass)
    case By_pointer
    with Add st have "add_by_pointer f ps s = Inr s'" by simp
    from add_by_pointer_Inr [OF this] show ?thesis by (auto simp: add_eq split: if_splits)
  next
    case By_value
    with Add st have "add_by_value f ps s = Inr s'" by simp
    from add_by_value_Inr [OF this] obtain params s1 elems s2 s3 s4 where
      3: "add_by_pointer f elems s2 = Inr s3"
      and 4: "destroy_all (rev elems) s3 = Some s4" and 5: "destroy_all (rev params) s4 = Some s'"
      by blast
    from add_by_pointer_Inr [OF 3] have "\<not> mutex (registry s3)"
      by (auto simp: add_eq split: if_splits)
    with more_program_state [OF more_destroy_all [OF 4]]
      more_program_state [OF more_destroy_all [OF 5]]
    show ?thesis by simp
  qed
next
  case (Remove f)
  with st show ?thesis by (auto simp: delegate_remove_eq split: option.splits if_splits)
next
  case Clear
  with st show ?thesis by (auto simp: clear_eq split: option.splits if_splits)
next
  case (InvokeVoid params)
  with st show ?thesis by (auto simp: Invoke_eq split: option.splits if_splits)
qed

lemma run_follows:
  "counted s \<Longrightarrow> run hc xs s = Inr s' \<Longrightarrow> follows s s'"
proof (induction xs arbitrary: s)
  case Nil
  then show ?case by (simp add: follows_refl)
next
  case (Cons x xs)
  from Cons.prems(2) obtain s1 where 1: "step hc x s = Inr s1" and 2: "run hc xs s1 = Inr s'"
    by (auto split: sum.splits)
  from step_follows [OF Cons.prems(1) 1] have f1: "follows s s1" .
  then have "counted s1" by (simp add: follows_def)
  from Cons.IH [OF this 2] f1 show ?case by (rule follows_trans [rotated])
qed

lemma run_unlocked:
  "\<not> mutex (registry s) \<Longrightarrow> run hc xs s = Inr s' \<Longrightarrow> \<not> mutex (registry s')"
proof (induction xs arbitrary: s)
  case Nil
  then show ?case by simp
next
  case (Cons x xs)
  from Cons.prems(2) obtain s1 where 1: "step hc x s = Inr s1" and 2: "run hc xs s1 = Inr s'"
    by (auto split: sum.splits)
  from Cons.IH [OF step_unlocked [OF Cons.prems(1) 1] 2] show ?case .
qed

lemma reachable:
  assumes "run hc xs (initial w0) = Inr s"
  shows "counted s \<and> \<not> mutex (registry s)"
proof -
  have c: "counted (initial w0 :: ('a, 'b, 'c) program_state)"
    by (simp add: counted_def initial_def)
  have u: "\<not> mutex (registry (initial w0 :: ('a, 'b, 'c) program_state))"
    by (simp add: initial_def delegate_ctor_def)
  from run_follows [OF c assms] run_unlocked [OF u assms] show ?thesis
    by (simp add: follows_def)
qed

lemmas eval_defs = initial_def observer_ctor_def make_shared_def add_by_value_def
  add_by_pointer_def observer_copy_ctor_def observer_copy_assign_def observer_dtor_def
  object_at_def acquire_def release_def add_eq delegate_ctor_def Invoke_eq live_def
  is_expired_def expired_def

section \<open>Properties of the specification\<close>

text \<open>
  C4. \<open>is_expired\<close> holds exactly when some weak pointer of the entry does not resolve
  to a live token; an entry with no observer is never expired.
\<close>

theorem is_expired_iff_unresolvable:
  "is_expired st e = (\<exists>a\<in>set (observers e). \<not> resolvable st a)
   \<and> (observers e = [] \<longrightarrow> \<not> is_expired st e)"
  by (auto simp: is_expired_def any_expired_iff expired_def resolvable_def)

theorem is_expired_iff_unresolvable_witness:
  "observers \<lparr>function_f = plain_logger, observers = []\<rparr> = []
   \<and> \<not> is_expired [\<lparr>use_count = 0, flag = True\<rparr>] \<lparr>function_f = plain_logger, observers = []\<rparr>
   \<and> is_expired [\<lparr>use_count = 1, flag = True\<rparr>, \<lparr>use_count = 0, flag = True\<rparr>]
        \<lparr>function_f = plain_logger, observers = [0, 1]\<rparr>
   \<and> \<not> is_expired [\<lparr>use_count = 1, flag = True\<rparr>, \<lparr>use_count = 0, flag = True\<rparr>]
        \<lparr>function_f = plain_logger, observers = [0]\<rparr>"
  using is_expired_iff_unresolvable [of "[\<lparr>use_count = 0, flag = True\<rparr>]"
          "\<lparr>function_f = plain_logger, observers = []\<rparr>"]
        is_expired_iff_unresolvable [of "[\<lparr>use_count = 1, flag = True\<rparr>, \<lparr>use_count = 0, flag = True\<rparr>]"
          "\<lparr>function_f = plain_logger, observers = [0, 1]\<rparr>"]
        is_expired_iff_unresolvable [of "[\<lparr>use_count = 1, flag = True\<rparr>, \<lparr>use_count = 0, flag = True\<rparr>]"
          "\<lparr>function_f = plain_logger, observers = [0]\<rparr>"]
  by (simp add: resolvable_def)

text \<open>
  C7. On a delegate with no entry the void \<open>Invoke\<close> returns at once: the delegate and
  the program state are as before (nothing is called, nothing is erased).
\<close>

theorem Invoke_empty_no_work:
  "functions_v d = [] \<Longrightarrow> Invoke d st params w = (if mutex d then None else Some (d, w))"
  by (cases d) (simp add: Invoke_def)

theorem Invoke_empty_no_work_witness:
  "functions_v (delegate_ctor :: (int, unit, int list) delegate) = []
   \<and> Invoke (delegate_ctor :: (int, unit, int list) delegate) [] 3 [] = Some (delegate_ctor, [])"
  using Invoke_empty_no_work [of "delegate_ctor :: (int, unit, int list) delegate" "[]" 3 "[]"]
  by (simp add: delegate_ctor_def)

text \<open>
  C5. \<open>remove\<close> erases every entry whose callable has the declared type of the given
  callable, whatever the targets are: no entry of that type is left, nothing is added, and
  the outcome is the same for every target the given callable may hold. In the example
  two closures of one type with different captures both go.
\<close>

theorem remove_erases_declared_type:
  "\<not> mutex d \<Longrightarrow>
     \<exists>d'. delegate_remove hc c d = Some d'
       \<and> (\<forall>e. target_type (function_f e) = target_type c \<longrightarrow> e \<notin> set (functions_v d'))
       \<and> set (functions_v d') \<subseteq> set (functions_v d)
       \<and> (\<forall>g. delegate_remove hc (c\<lparr>target := g\<rparr>) d = Some d')"
  by (auto simp: delegate_remove_eq)

theorem remove_erases_declared_type_witness:
  "\<not> mutex \<lparr>functions_v = [\<lparr>function_f = scaled_logger 2, observers = []\<rparr>,
                             \<lparr>function_f = plain_logger, observers = [0]\<rparr>,
                             \<lparr>function_f = scaled_logger 3, observers = [1]\<rparr>],
             mutex = False\<rparr>
   \<and> delegate_remove length (scaled_logger 5)
        \<lparr>functions_v = [\<lparr>function_f = scaled_logger 2, observers = []\<rparr>,
                         \<lparr>function_f = plain_logger, observers = [0]\<rparr>,
                         \<lparr>function_f = scaled_logger 3, observers = [1]\<rparr>],
         mutex = False\<rparr>
       = Some \<lparr>functions_v = [\<lparr>function_f = plain_logger, observers = [0]\<rparr>], mutex = False\<rparr>
   \<and> target (scaled_logger 2) 1 [] \<noteq> target (scaled_logger 3) 1 []
   \<and> target_type (scaled_logger 2) = target_type (scaled_logger 5)
   \<and> target_type (scaled_logger 3) = target_type (scaled_logger 5)"
  using remove_erases_declared_type [of
      "\<lparr>functions_v = [\<lparr>function_f = scaled_logger 2, observers = []\<rparr>,
                         \<lparr>function_f = plain_logger, observers = [0]\<rparr>,
                         \<lparr>function_f = scaled_logger 3, observers = [1]\<rparr>],
         mutex = False\<rparr>" length "scaled_logger 5"]
  by (simp add: delegate_remove_eq scaled_logger_def plain_logger_def)

text \<open>
  C9, as stated (entries of another declared type are left alone), fails where two types
  have the same \<^verbatim>\<open>hash_code\<close>, which the standard permits: the entry of the other type
  is erased.
\<close>

theorem remove_keeps_other_types_counterexample:
  "target_type (function_f \<lparr>function_f = plain_logger, observers = [0]\<rparr>)
     \<noteq> target_type (scaled_logger 5)
   \<and> delegate_remove colliding_hash_code (scaled_logger 5)
        \<lparr>functions_v = [\<lparr>function_f = plain_logger, observers = [0]\<rparr>], mutex = False\<rparr>
       = Some \<lparr>functions_v = [], mutex = False\<rparr>"
  by (simp add: delegate_remove_eq scaled_logger_def plain_logger_def colliding_hash_code_def)

text \<open>
  C9, amended. \<open>remove\<close> leaves exactly the entries whose type has another
  \<^verbatim>\<open>hash_code\<close> than the type of the given callable, unchanged and in their order;
  where no entry's type collides with the given one, these are the entries of another
  declared type.
\<close>

theorem remove_keeps_other_hash_codes:
  "\<not> mutex d \<Longrightarrow>
     \<exists>d'. delegate_remove hc c d = Some d'
       \<and> functions_v d' =
           filter (\<lambda>e. hc (target_type (function_f e)) \<noteq> hc (target_type c)) (functions_v d)
       \<and> ((\<forall>e\<in>set (functions_v d).
              hc (target_type (function_f e)) = hc (target_type c)
                \<longrightarrow> target_type (function_f e) = target_type c)
            \<longrightarrow> functions_v d' =
                  filter (\<lambda>e. target_type (function_f e) \<noteq> target_type c) (functions_v d))"
proof -
  assume "\<not> mutex d"
  then have 1: "delegate_remove hc c d =
      Some (d\<lparr>functions_v :=
        filter (\<lambda>e. hc (target_type (function_f e)) \<noteq> hc (target_type c)) (functions_v d)\<rparr>)"
    by (simp add: delegate_remove_eq)
  have 2: "filter (\<lambda>e. hc (target_type (function_f e)) \<noteq> hc (target_type c)) (functions_v d)
        = filter (\<lambda>e. target_type (function_f e) \<noteq> target_type c) (functions_v d)"
    if "\<forall>e\<in>set (functions_v d).
              hc (target_type (function_f e)) = hc (target_type c)
                \<longrightarrow> target_type (function_f e) = target_type c"
    using that by (intro filter_cong) auto
  from 1 2 show ?thesis by simp
qed

theorem remove_keeps_other_hash_codes_witness:
  "\<not> mutex \<lparr>functions_v = [\<lparr>function_f = scaled_logger 2, observers = []\<rparr>,
                             \<lparr>function_f = plain_logger, observers = [0]\<rparr>,
                             \<lparr>function_f = scaled_logger 3, observers = [1]\<rparr>],
             mutex = False\<rparr>
   \<and> delegate_remove length plain_logger
        \<lparr>functions_v = [\<lparr>function_f = scaled_logger 2, observers = []\<rparr>,
                         \<lparr>function_f = plain_logger, observers = [0]\<rparr>,
                         \<lparr>function_f = scaled_logger 3, observers = [1]\<rparr>],
         mutex = False\<rparr>
       = Some \<lparr>functions_v = [\<lparr>function_f = scaled_logger 2, observers = []\<rparr>,
                              \<lparr>function_f = scaled_logger 3, observers = [1]\<rparr>],
               mutex = False\<rparr>
   \<and> length (target_type (scaled_logger 2)) \<noteq> length (target_type plain_logger)
   \<and> length (target_type (scaled_logger 3)) \<noteq> length (target_type plain_logger)"
  using remove_keeps_other_hash_codes [of
      "\<lparr>functions_v = [\<lparr>function_f = scaled_logger 2, observers = []\<rparr>,
                         \<lparr>function_f = plain_logger, observers = [0]\<rparr>,
                         \<lparr>function_f = scaled_logger 3, observers = [1]\<rparr>],
         mutex = False\<rparr>" length plain_logger]
  by (simp add: delegate_remove_eq scaled_logger_def plain_logger_def)

text \<open>
  C6 does not hold of the code: the assignment operator never writes the member. A
  wrapper that holds 0 and has one subscriber is assigned 5: the subscriber is called
  once, with 5, and \<open>get\<close> still returns 0.
\<close>

theorem assign_then_get_old_value:
  "Option.bind (add plain_logger [] (delegate_value_ctor 0))
     (\<lambda>this. map_option (\<lambda>(this', w'). (get this', w')) (assign 5 this [] []))
   = Some (0, [5])"
  by (simp add: add_eq assign_def Invoke_eq delegate_value_ctor_def live_def is_expired_def
        plain_logger_def get_def)

text \<open>In general the value read after an assignment is the value read before it.\<close>

lemma assign_keeps_member:
  "assign v this st w = Some (this', w') \<Longrightarrow> get this' = get this"
  by (auto simp: assign_def Invoke_eq get_def split: if_splits)

text \<open>
  C3, as stated, fails for a copied observer: the copy gets no token of its own, and after
  the observer that was registered is destroyed its token, co-owned by the copy, is live:
  the weak pointer taken before is not expired.
\<close>

theorem copied_observer_keeps_token_counterexample:
  "run length [NewObserver, Add plain_logger By_pointer [0], CopyObserver 0, DeleteObserver 0]
       (initial [])
     = Inr \<lparr>tokens = [\<lparr>use_count = 1, flag = True\<rparr>],
            objects = [None, Some \<lparr>valid = 0\<rparr>],
            registry = \<lparr>functions_v = [\<lparr>function_f = plain_logger, observers = [0]\<rparr>],
                        mutex = False\<rparr>,
            world = []\<rparr>
   \<and> \<not> expired [\<lparr>use_count = 1, flag = True\<rparr>] 0
   \<and> \<not> is_expired [\<lparr>use_count = 1, flag = True\<rparr>]
          \<lparr>function_f = plain_logger, observers = [0]\<rparr>"
  by (simp add: eval_defs)

text \<open>
  C3, amended. In every program the default constructor of an observer yields a token at
  an address no token and no observer has, live and set to true; the copy constructor makes
  no token, the copy holds the token of its source. A token is expired exactly when no
  living observer holds it; from then on it stays expired whatever the program does, and
  so is every entry with a weak pointer to it.
\<close>

theorem token_expired_iff_owners_gone:
  assumes reach: "run hc ops (initial w0) = Inr s"
  shows "(\<exists>s1. step hc NewObserver s = Inr s1
            \<and> tokens s1 = tokens s @ [\<lparr>use_count = 1, flag = True\<rparr>]
            \<and> objects s1 = objects s @ [Some \<lparr>valid = length (tokens s)\<rparr>]
            \<and> Some \<lparr>valid = length (tokens s)\<rparr> \<notin> set (objects s)
            \<and> resolvable (tokens s1) (length (tokens s)))
       \<and> (\<forall>p ob. object_at s p = Some ob \<longrightarrow>
             (\<exists>s1. step hc (CopyObserver p) s = Inr s1
                \<and> length (tokens s1) = length (tokens s)
                \<and> objects s1 = objects s @ [Some ob]))
       \<and> (\<forall>a. a < length (tokens s) \<longrightarrow>
             expired (tokens s) a = (Some \<lparr>valid = a\<rparr> \<notin> set (objects s)))
       \<and> (\<forall>a ops' s'. a < length (tokens s) \<and> expired (tokens s) a \<and> run hc ops' s = Inr s'
             \<longrightarrow> expired (tokens s') a \<and> \<not> resolvable (tokens s') a
               \<and> (\<forall>e. a \<in> set (observers e) \<longrightarrow> is_expired (tokens s') e))"
proof -
  from reachable [OF reach] have c: "counted s" by simp
  have new: "\<exists>s1. step hc NewObserver s = Inr s1
            \<and> tokens s1 = tokens s @ [\<lparr>use_count = 1, flag = True\<rparr>]
            \<and> objects s1 = objects s @ [Some \<lparr>valid = length (tokens s)\<rparr>]
            \<and> Some \<lparr>valid = length (tokens s)\<rparr> \<notin> set (objects s)
            \<and> resolvable (tokens s1) (length (tokens s))"
    using fresh_no_owner [OF c]
    by (simp add: observer_ctor_def make_shared_def resolvable_def)
  have copy: "\<exists>s1. step hc (CopyObserver p) s = Inr s1
                \<and> length (tokens s1) = length (tokens s)
                \<and> objects s1 = objects s @ [Some ob]"
    if "object_at s p = Some ob" for p ob
    using that by (simp add: observer_copy_ctor_def)
  have iff: "expired (tokens s) a = (Some \<lparr>valid = a\<rparr> \<notin> set (objects s))"
    if "a < length (tokens s)" for a
    using expired_iff_no_owner [OF c that] .
  have later: "expired (tokens s') a \<and> \<not> resolvable (tokens s') a
               \<and> (\<forall>e. a \<in> set (observers e) \<longrightarrow> is_expired (tokens s') e)"
    if "a < length (tokens s)" "expired (tokens s) a" "run hc ops' s = Inr s'" for a ops' s'
  proof -
    from run_follows [OF c that(3)] that(1,2)
    have e: "expired (tokens s') a" and l: "a < length (tokens s')"
      by (auto simp: follows_def)
    from e l have "\<not> resolvable (tokens s') a" by (simp add: expired_def resolvable_def)
    with e show ?thesis by (auto simp: is_expired_def any_expired_iff)
  qed
  from new copy iff later show ?thesis by blast
qed

theorem token_expired_iff_owners_gone_witness:
  "run length [NewObserver, Add plain_logger By_value [0], CopyObserver 0, DeleteObserver 0,
               DeleteObserver 3] (initial [])
     = Inr \<lparr>tokens = [\<lparr>use_count = 0, flag = True\<rparr>],
            objects = [None, None, None, None],
            registry = \<lparr>functions_v = [\<lparr>function_f = plain_logger, observers = [0]\<rparr>],
                        mutex = False\<rparr>,
            world = []\<rparr>
   \<and> (0::nat) < length [\<lparr>use_count = 0, flag = True\<rparr>]
   \<and> expired [\<lparr>use_count = 0, flag = True\<rparr>] 0
   \<and> Some \<lparr>valid = 0\<rparr> \<notin> set [None, None, None, None]
   \<and> run length [NewObserver, CopyObserver 4, InvokeVoid 3]
         \<lparr>tokens = [\<lparr>use_count = 0, flag = True\<rparr>],
          objects = [None, None, None, None],
          registry = \<lparr>functions_v = [\<lparr>function_f = plain_logger, observers = [0]\<rparr>],
                      mutex = False\<rparr>,
          world = []\<rparr>
       = Inr \<lparr>tokens = [\<lparr>use_count = 0, flag = True\<rparr>, \<lparr>use_count = 2, flag = True\<rparr>],
              objects = [None, None, None, None, Some \<lparr>valid = 1\<rparr>, Some \<lparr>valid = 1\<rparr>],
              registry = \<lparr>functions_v = [], mutex = False\<rparr>,
              world = []\<rparr>
   \<and> expired [\<lparr>use_count = 0, flag = True\<rparr>, \<lparr>use_count = 2, flag = True\<rparr>] 0
   \<and> is_expired [\<lparr>use_count = 0, flag = True\<rparr>, \<lparr>use_count = 2, flag = True\<rparr>]
         \<lparr>function_f = plain_logger, observers = [0]\<rparr>"
  using token_expired_iff_owners_gone [where hc = length
      and ops = "[NewObserver, Add plain_logger By_value [0], CopyObserver 0, DeleteObserver 0,
                  DeleteObserver 3]"
      and ?w0.0 = "[]"]
  by (simp add: eval_defs)




text \<open>
  Handing \<open>add\<close> an observer that is already destroyed has no defined outcome: the
  function reads the object.
\<close>

lemma add_of_destroyed_observer_undefined:
  "run length [NewObserver, DeleteObserver 0, Add plain_logger By_pointer [0]] (initial [])
     = Inl Undefined_behaviour
   \<and> run length [NewObserver, DeleteObserver 0, Add plain_logger By_value [0]] (initial [])
     = Inl Undefined_behaviour"
  by (simp add: eval_defs)

end
